theory Spec2Isabelle
  imports Main "HOL-Library.Word"
begin

section \<open>The control group freezer (kernel/cgroup_freezer.c)\<close>

text \<open>
  A shallow embedding of the freezer subsystem. Each C function of the file is a HOL
  function of the same name. The group is passed in and returned: the writes to
  \<open>freezer->state\<close> and the calls into the per-task freezer are the effects of the code,
  and both are recorded, in program order, in the \<open>trace\<close> of the group.
  The code runs under \<open>freezer->lock\<close> and \<open>cgroup_mutex\<close>; the embedding is the sequential
  behaviour of each function, with the locks left out.
\<close>

subsection \<open>Data\<close>

text \<open>\<open>enum freezer_state\<close>, with the values the C enumeration gives its members.\<close>

datatype freezer_state = STATE_RUNNING | STATE_FREEZING | STATE_FROZEN

fun enum_val :: "freezer_state \<Rightarrow> nat" where
  "enum_val STATE_RUNNING = 0"
| "enum_val STATE_FREEZING = 1"
| "enum_val STATE_FROZEN = 2"

text \<open>The table \<open>freezer_state_strs\<close>, indexed by the value of the state.\<close>

definition freezer_state_strs :: "string list" where
  "freezer_state_strs = [''RUNNING'', ''FREEZING'', ''FROZEN'']"

text \<open>
  The error numbers of \<open>errno.h\<close>, which the file includes through its headers; the
  functions return their negations.
\<close>

definition EIO :: int where "EIO = 5"
definition ENOMEM :: int where "ENOMEM = 12"
definition EBUSY :: int where "EBUSY = 16"
definition ENODEV :: int where "ENODEV = 19"

text \<open>
  The per-task freezer of \<open>linux/freezer.h\<close> is not part of the file: the code calls
  \<open>frozen\<close>, \<open>freezing\<close>, \<open>task_is_stopped_or_traced\<close>, \<open>freezer_should_skip\<close>,
  \<open>freeze_task\<close>, \<open>__thaw_process\<close> and \<open>wake_up_process\<close> on a \<open>task_struct\<close>. The
  embedding takes them as a parameter: a record of functions over an arbitrary type of
  tasks. A call that may change the task returns the task after the call.
  \<open>freeze_task\<close> is always called with \<open>sig_only = true\<close>; \<open>thaw_process\<close> is the C
  function \<open>__thaw_process\<close>, whose result the code stores in an \<open>int\<close>.
\<close>

record 'task freezer_ops =
  frozen :: "'task \<Rightarrow> bool"
  freezing :: "'task \<Rightarrow> bool"
  task_is_stopped_or_traced :: "'task \<Rightarrow> bool"
  freezer_should_skip :: "'task \<Rightarrow> bool"
  freeze_task :: "'task \<Rightarrow> bool \<times> 'task"
  thaw_process :: "'task \<Rightarrow> int \<times> 'task"
  wake_up_process :: "'task \<Rightarrow> 'task"

text \<open>
  The effects of the code, in program order: an assignment to \<open>freezer->state\<close>, and the
  calls that ask a task to freeze, thaw it, or wake it. A call carries the task as it
  was when the call was made.
\<close>

datatype 'task event =
    Set_state freezer_state
  | Freeze_task 'task
  | Thaw_process 'task
  | Wake_up_process 'task

text \<open>
  A control group with its \<open>struct freezer\<close>: \<open>state\<close> is \<open>freezer->state\<close>, \<open>tasks\<close> are
  the members in the order \<open>cgroup_iter_next\<close> yields them, \<open>removed\<close> says that
  \<open>cgroup_lock_live_group\<close> fails on the group.
\<close>

record 'task cgroup =
  state :: freezer_state
  tasks :: "'task list"
  removed :: bool
  trace :: "'task event list"

text \<open>\<open>BUG_ON\<close> stops the kernel: the one failure that is not a return value.\<close>

datatype bug = BUG

subsection \<open>The functions of the file\<close>

text \<open>
  \<open>freezer_create\<close> fails with \<open>-ENOMEM\<close> when \<open>kzalloc\<close> returns no memory
  (\<open>allocated\<close> is false); otherwise it stores \<open>STATE_RUNNING\<close> in the new freezer. The
  members \<open>ts\<close> of the group and its liveness belong to the cgroup core.
\<close>

definition freezer_create :: "bool \<Rightarrow> 'task list \<Rightarrow> int + 'task cgroup" where
  "freezer_create allocated ts =
     (if \<not> allocated then Inl (- ENOMEM)
      else Inr \<lparr>state = STATE_RUNNING, tasks = ts, removed = False,
                trace = [Set_state STATE_RUNNING]\<rparr>)"

definition cgroup_frozen :: "'task cgroup \<Rightarrow> bool" where
  "cgroup_frozen cg = (state cg = STATE_FROZEN)"

definition freezer_can_attach :: "'task cgroup \<Rightarrow> 'task \<Rightarrow> int" where
  "freezer_can_attach new_cgroup task =
     (let retval = 0 in
      if state new_cgroup = STATE_FROZEN then - EBUSY else retval)"

text \<open>
  \<open>freezer_fork\<close>: the assertion comes first; then the new task is asked to freeze when
  the state is \<open>STATE_FREEZING\<close>. The result of \<open>freeze_task\<close> is dropped, as in the
  code. The function returns the group and the task after the call.
\<close>

definition freezer_fork ::
  "'task freezer_ops \<Rightarrow> 'task cgroup \<Rightarrow> 'task \<Rightarrow> bug + ('task cgroup \<times> 'task)" where
  "freezer_fork ops cg task =
     (if state cg = STATE_FROZEN then Inl BUG
      else if state cg = STATE_FREEZING
        then Inr (cg\<lparr>trace := trace cg @ [Freeze_task task]\<rparr>, snd (freeze_task ops task))
        else Inr (cg, task))"

text \<open>
  The loop of \<open>check_if_frozen\<close>, on the pair \<open>(nfrozen, ntotal)\<close> of \<open>unsigned int\<close>
  counters.
\<close>

fun check_if_frozen_loop ::
  "'task freezer_ops \<Rightarrow> 'task list \<Rightarrow> 32 word \<times> 32 word \<Rightarrow> 32 word \<times> 32 word" where
  "check_if_frozen_loop ops [] (nfrozen, ntotal) = (nfrozen, ntotal)"
| "check_if_frozen_loop ops (task # rest) (nfrozen, ntotal) =
     check_if_frozen_loop ops rest
       (if frozen ops task \<or> (task_is_stopped_or_traced ops task \<and> freezing ops task)
        then nfrozen + 1 else nfrozen,
        ntotal + 1)"

definition check_if_frozen :: "'task freezer_ops \<Rightarrow> 'task cgroup \<Rightarrow> 'task cgroup" where
  "check_if_frozen ops cg =
     (case check_if_frozen_loop ops (tasks cg) (0, 0) of
        (nfrozen, ntotal) \<Rightarrow>
          if nfrozen = ntotal
          then cg\<lparr>state := STATE_FROZEN, trace := trace cg @ [Set_state STATE_FROZEN]\<rparr>
          else cg)"

text \<open>
  \<open>freezer_read\<close> appends to the \<open>seq_file\<close> \<open>m\<close> and returns the result, the group and
  the file.
\<close>

definition freezer_read ::
  "'task freezer_ops \<Rightarrow> 'task cgroup \<Rightarrow> string \<Rightarrow> int \<times> 'task cgroup \<times> string" where
  "freezer_read ops cg m =
     (if removed cg then (- ENODEV, cg, m)
      else
        let cg' = (if state cg = STATE_FREEZING then check_if_frozen ops cg else cg);
            st = state cg'
        in (0, cg', m @ freezer_state_strs ! enum_val st @ [CHR 0x0A]))"

text \<open>
  The loop of \<open>try_to_freeze_cgroup\<close>: the members after the calls, the counter
  \<open>num_cant_freeze_now\<close>, and the calls made. The tests after \<open>freeze_task\<close> read the
  task as the call left it.
\<close>

fun try_to_freeze_loop ::
  "'task freezer_ops \<Rightarrow> 'task list \<Rightarrow> 32 word \<Rightarrow> 'task list \<times> 32 word \<times> 'task event list" where
  "try_to_freeze_loop ops [] num_cant_freeze_now = ([], num_cant_freeze_now, [])"
| "try_to_freeze_loop ops (task # rest) num_cant_freeze_now =
     (case freeze_task ops task of
        (ok, task') \<Rightarrow>
          (case try_to_freeze_loop ops rest
                  (if \<not> ok then num_cant_freeze_now
                   else if task_is_stopped_or_traced ops task' \<and> freezing ops task'
                     then num_cant_freeze_now
                   else if \<not> freezing ops task' \<and> \<not> freezer_should_skip ops task'
                     then num_cant_freeze_now + 1
                   else num_cant_freeze_now) of
             (rest', n, evs) \<Rightarrow> (task' # rest', n, Freeze_task task # evs)))"

definition try_to_freeze_cgroup :: "'task freezer_ops \<Rightarrow> 'task cgroup \<Rightarrow> int \<times> 'task cgroup" where
  "try_to_freeze_cgroup ops cg =
     (case try_to_freeze_loop ops (tasks cg) 0 of
        (ts', num_cant_freeze_now, evs) \<Rightarrow>
          (if num_cant_freeze_now \<noteq> 0 then - EBUSY else 0,
           cg\<lparr>state := STATE_FREEZING, tasks := ts',
              trace := trace cg @ Set_state STATE_FREEZING # evs\<rparr>))"

text \<open>The loop of \<open>unfreeze_cgroup\<close>: the members after the calls, and the calls made.\<close>

fun unfreeze_loop :: "'task freezer_ops \<Rightarrow> 'task list \<Rightarrow> 'task list \<times> 'task event list" where
  "unfreeze_loop ops [] = ([], [])"
| "unfreeze_loop ops (task # rest) =
     (case thaw_process ops task of
        (do_wake, task') \<Rightarrow>
          (case unfreeze_loop ops rest of
             (rest', evs) \<Rightarrow>
               if do_wake \<noteq> 0
               then (wake_up_process ops task' # rest',
                     Thaw_process task # Wake_up_process task' # evs)
               else (task' # rest', Thaw_process task # evs)))"

definition unfreeze_cgroup :: "'task freezer_ops \<Rightarrow> 'task cgroup \<Rightarrow> int \<times> 'task cgroup" where
  "unfreeze_cgroup ops cg =
     (case unfreeze_loop ops (tasks cg) of
        (ts', evs) \<Rightarrow>
          (0, cg\<lparr>state := STATE_RUNNING, tasks := ts',
                 trace := trace cg @ evs @ [Set_state STATE_RUNNING]\<rparr>))"

text \<open>
  The group as the loop of \<open>unfreeze_cgroup\<close> leaves it (lines 271 to 281), before the
  store of \<open>STATE_RUNNING\<close> in line 282: the members are thawed and woken, the state is
  still the old one. \<open>unfreeze_cgroup\<close> runs under \<open>freezer->lock\<close>, but \<open>freezer_fork\<close>
  reads the state for its assertion before it takes that lock, so a member that the
  loop has woken can run the hook on this group.
\<close>

definition unfreeze_cgroup_tasks :: "'task freezer_ops \<Rightarrow> 'task cgroup \<Rightarrow> 'task cgroup" where
  "unfreeze_cgroup_tasks ops cg =
     (case unfreeze_loop ops (tasks cg) of
        (ts', evs) \<Rightarrow> cg\<lparr>tasks := ts', trace := trace cg @ evs\<rparr>)"

text \<open>
  \<open>freezer_change_state\<close>: the check first, whatever the state; then the \<open>switch\<close> on the
  state, where \<open>STATE_FREEZING\<close> falls through to \<open>STATE_FROZEN\<close> unless the goal is
  \<open>STATE_FROZEN\<close>.
\<close>

definition freezer_change_state ::
  "'task freezer_ops \<Rightarrow> 'task cgroup \<Rightarrow> freezer_state \<Rightarrow> int \<times> 'task cgroup" where
  "freezer_change_state ops cg goal_state =
     (let cg1 = check_if_frozen ops cg in
      if goal_state = state cg1 then (0, cg1)
      else
        (case state cg1 of
           STATE_RUNNING \<Rightarrow> try_to_freeze_cgroup ops cg1
         | STATE_FREEZING \<Rightarrow>
             if goal_state = STATE_FROZEN then try_to_freeze_cgroup ops cg1
             else unfreeze_cgroup ops cg1
         | STATE_FROZEN \<Rightarrow> unfreeze_cgroup ops cg1))"

text \<open>
  \<open>strcmp\<close> on buffers: a buffer is the list of its bytes, and the string in it ends at
  the first NUL byte or at the end of the list.
\<close>

fun strcmp :: "string \<Rightarrow> string \<Rightarrow> int" where
  "strcmp [] [] = 0"
| "strcmp [] (b # bs) = - int (of_char b)"
| "strcmp (a # as) [] = int (of_char a)"
| "strcmp (a # as) (b # bs) =
     (if a \<noteq> b then int (of_char a) - int (of_char b)
      else if a = CHR 0x00 then 0
      else strcmp as bs)"

definition freezer_write ::
  "'task freezer_ops \<Rightarrow> 'task cgroup \<Rightarrow> string \<Rightarrow> int \<times> 'task cgroup" where
  "freezer_write ops cg buffer =
     (if strcmp buffer (freezer_state_strs ! enum_val STATE_RUNNING) = 0
      then (if removed cg then (- ENODEV, cg) else freezer_change_state ops cg STATE_RUNNING)
      else if strcmp buffer (freezer_state_strs ! enum_val STATE_FROZEN) = 0
      then (if removed cg then (- ENODEV, cg) else freezer_change_state ops cg STATE_FROZEN)
      else (- EIO, cg))"

subsection \<open>Predicates and projections used in the statements\<close>

text \<open>
  A member counts towards \<open>nfrozen\<close> when it is frozen now, or is stopped or traced with
  a freeze request pending.
\<close>

definition paused_or_pending :: "'task freezer_ops \<Rightarrow> 'task \<Rightarrow> bool" where
  "paused_or_pending ops task =
     (frozen ops task \<or> (task_is_stopped_or_traced ops task \<and> freezing ops task))"

text \<open>
  A member blocks a freeze attempt when \<open>freeze_task\<close> returns true for it and, after the
  call, it is not stopped or traced with the request pending, the request is not
  pending at all, and the task is not marked to be skipped.
\<close>

definition cant_freeze_now :: "'task freezer_ops \<Rightarrow> 'task \<Rightarrow> bool" where
  "cant_freeze_now ops task =
     (case freeze_task ops task of
        (ok, task') \<Rightarrow>
          ok \<and> \<not> (task_is_stopped_or_traced ops task' \<and> freezing ops task')
             \<and> \<not> freezing ops task' \<and> \<not> freezer_should_skip ops task')"

text \<open>
  The invariant of the state: a group is in \<open>STATE_FROZEN\<close> only while every member
  counts as frozen.
\<close>

definition frozen_invariant :: "'task freezer_ops \<Rightarrow> 'task cgroup \<Rightarrow> bool" where
  "frozen_invariant ops cg =
     (state cg = STATE_FROZEN \<longrightarrow> list_all (paused_or_pending ops) (tasks cg))"

text \<open>The string a buffer holds: its bytes up to the first NUL.\<close>

definition c_string :: "string \<Rightarrow> string" where
  "c_string buffer = takeWhile (\<lambda>c. c \<noteq> CHR 0x00) buffer"

text \<open>The tasks asked to freeze and the tasks thawed, and the calls as a whole, in a trace.\<close>

fun freeze_calls :: "'task event list \<Rightarrow> 'task list" where
  "freeze_calls [] = []"
| "freeze_calls (Freeze_task t # evs) = t # freeze_calls evs"
| "freeze_calls (_ # evs) = freeze_calls evs"

fun thaw_calls :: "'task event list \<Rightarrow> 'task list" where
  "thaw_calls [] = []"
| "thaw_calls (Thaw_process t # evs) = t # thaw_calls evs"
| "thaw_calls (_ # evs) = thaw_calls evs"

fun is_call :: "'task event \<Rightarrow> bool" where
  "is_call (Set_state _) = False"
| "is_call _ = True"

definition adapter_calls :: "'task event list \<Rightarrow> 'task event list" where
  "adapter_calls evs = filter is_call evs"

subsection \<open>A per-task freezer to run the code on\<close>

text \<open>
  The theorems below hold for every per-task freezer. To evaluate them on concrete
  groups, one such freezer is written out, after the contract that section 4.3 of the
  specification gives: a task is paused or not, has a pause request pending or not, is
  stopped or traced or not, is marked to be skipped or not, and may decline a request.
\<close>

record task =
  pid :: nat
  pf_frozen :: bool
  tif_freeze :: bool
  is_stopped_or_traced :: bool
  pf_freezer_skip :: bool
  declines_freeze :: bool

text \<open>
  Modelled from the spec: \<open>freeze_task\<close> is missing from the sources. The pause request of
  section 4.3 answers already paused (the call returns false), pause requested (it
  returns true and the request is pending), or declined (it returns true and no request
  is pending).
\<close>

definition spec_freeze_task :: "task \<Rightarrow> bool \<times> task" where
  "spec_freeze_task t =
     (if pf_frozen t then (False, t)
      else if declines_freeze t then (True, t)
      else (True, t\<lparr>tif_freeze := True\<rparr>))"

text \<open>
  Modelled from the spec: \<open>__thaw_process\<close> is missing from the sources. The resume
  request of section 4.3 answers resumed (the task was paused and must be woken) or
  no-op (a pending request is withdrawn).
\<close>

definition spec_thaw_process :: "task \<Rightarrow> int \<times> task" where
  "spec_thaw_process t =
     (if pf_frozen t then (1, t\<lparr>pf_frozen := False\<rparr>)
      else (0, t\<lparr>tif_freeze := False\<rparr>))"

text \<open>
  Modelled from the spec: the queries \<open>frozen\<close>, \<open>freezing\<close>, \<open>task_is_stopped_or_traced\<close>
  and \<open>freezer_should_skip\<close> and the wake-up are missing from the sources. The queries
  read the flags of the task; the wake signal of section 4.3 changes none of them.
\<close>

definition spec_ops :: "task freezer_ops" where
  "spec_ops =
     \<lparr>frozen = pf_frozen, freezing = tif_freeze,
      task_is_stopped_or_traced = is_stopped_or_traced,
      freezer_should_skip = pf_freezer_skip,
      freeze_task = spec_freeze_task, thaw_process = spec_thaw_process,
      wake_up_process = (\<lambda>t. t)\<rparr>"

text \<open>Three tasks: one running, one frozen, one that declines the request.\<close>

definition task_running :: task where
  "task_running =
     \<lparr>pid = 1, pf_frozen = False, tif_freeze = False, is_stopped_or_traced = False,
      pf_freezer_skip = False, declines_freeze = False\<rparr>"

definition task_frozen :: task where
  "task_frozen =
     \<lparr>pid = 2, pf_frozen = True, tif_freeze = False, is_stopped_or_traced = False,
      pf_freezer_skip = False, declines_freeze = False\<rparr>"

definition task_declining :: task where
  "task_declining =
     \<lparr>pid = 3, pf_frozen = False, tif_freeze = False, is_stopped_or_traced = False,
      pf_freezer_skip = False, declines_freeze = True\<rparr>"

definition group_of :: "freezer_state \<Rightarrow> task list \<Rightarrow> task cgroup" where
  "group_of s ts = \<lparr>state = s, tasks = ts, removed = False, trace = []\<rparr>"

section \<open>Properties\<close>

subsection \<open>The counters of the loops\<close>

lemma check_if_frozen_loop_count:
  "check_if_frozen_loop ops ts (nfrozen, ntotal) =
     (nfrozen + of_nat (length (filter (paused_or_pending ops) ts)), ntotal + of_nat (length ts))"
  by (induction ts arbitrary: nfrozen ntotal) (simp_all add: paused_or_pending_def)

lemma length_filter_eq_iff: "length (filter P xs) = length xs \<longleftrightarrow> list_all P xs"
  by (metis filter_id_conv length_filter_less less_irrefl list_all_iff)

lemma counters_equal_iff:
  assumes "length ts < 2 ^ 32"
  shows "(of_nat (length (filter P ts)) :: 32 word) = of_nat (length ts) \<longleftrightarrow> list_all P ts"
proof -
  have "length (filter P ts) < 2 ^ 32"
    using assms le_less_trans [OF length_filter_le] by blast
  then have "(of_nat (length (filter P ts)) :: 32 word) = of_nat (length ts)
      \<longleftrightarrow> length (filter P ts) = length ts"
    using assms by (simp add: word_of_nat_eq_iff take_bit_nat_eq_self)
  then show ?thesis by (simp add: length_filter_eq_iff)
qed

lemma blocked_counter_zero_iff:
  assumes "length ts < 2 ^ 32"
  shows "(of_nat (length (filter P ts)) :: 32 word) = 0 \<longleftrightarrow> \<not> list_ex P ts"
proof -
  have "length (filter P ts) < 2 ^ 32"
    using assms le_less_trans [OF length_filter_le] by blast
  then have "(of_nat (length (filter P ts)) :: 32 word) = of_nat 0 \<longleftrightarrow> length (filter P ts) = 0"
    by (simp only: word_of_nat_eq_iff) (simp add: take_bit_nat_eq_self)
  then show ?thesis by (simp add: filter_empty_conv list_ex_iff)
qed

lemma try_to_freeze_loop_eq:
  "try_to_freeze_loop ops ts n =
     (map (\<lambda>t. snd (freeze_task ops t)) ts,
      n + of_nat (length (filter (cant_freeze_now ops) ts)),
      map Freeze_task ts)"
  by (induction ts arbitrary: n) (auto simp add: cant_freeze_now_def split: prod.splits)

lemma unfreeze_loop_thaw_calls: "thaw_calls (snd (unfreeze_loop ops ts)) = ts"
  by (induction ts) (auto split: prod.splits)

lemma unfreeze_loop_freeze_calls: "freeze_calls (snd (unfreeze_loop ops ts)) = []"
  by (induction ts) (auto split: prod.splits)

lemma unfreeze_loop_tasks:
  "fst (unfreeze_loop ops ts) =
     map (\<lambda>t. case thaw_process ops t of
                 (do_wake, t') \<Rightarrow> if do_wake \<noteq> 0 then wake_up_process ops t' else t') ts"
  by (induction ts) (auto split: prod.splits)

lemma thaw_calls_append: "thaw_calls (xs @ ys) = thaw_calls xs @ thaw_calls ys"
  by (induction xs rule: thaw_calls.induct) simp_all

lemma freeze_calls_append: "freeze_calls (xs @ ys) = freeze_calls xs @ freeze_calls ys"
  by (induction xs rule: freeze_calls.induct) simp_all

subsection \<open>Strings\<close>

lemma of_char_zero_iff: "(of_char c :: nat) = 0 \<longleftrightarrow> c = CHR 0x00"
  using of_char_eq_iff [of c "CHR 0x00", where ?'a = nat] by simp

lemma strcmp_zero_iff: "strcmp a b = 0 \<longleftrightarrow> c_string a = c_string b"
  by (induction a b rule: strcmp.induct) (auto simp add: c_string_def of_char_zero_iff)

lemma c_string_RUNNING [simp]: "c_string ''RUNNING'' = ''RUNNING''"
  by (simp add: c_string_def)

lemma c_string_FROZEN [simp]: "c_string ''FROZEN'' = ''FROZEN''"
  by (simp add: c_string_def)

lemma state_str_cases:
  "freezer_state_strs ! enum_val st =
     (case st of STATE_RUNNING \<Rightarrow> ''RUNNING'' | STATE_FREEZING \<Rightarrow> ''FREEZING''
      | STATE_FROZEN \<Rightarrow> ''FROZEN'')"
  by (cases st) (simp_all add: freezer_state_strs_def)

subsection \<open>The functions, in closed form\<close>

lemma check_if_frozen_eq:
  assumes "length (tasks cg) < 2 ^ 32"
  shows "check_if_frozen ops cg =
    (if list_all (paused_or_pending ops) (tasks cg)
     then cg\<lparr>state := STATE_FROZEN, trace := trace cg @ [Set_state STATE_FROZEN]\<rparr>
     else cg)"
  using counters_equal_iff [OF assms, of "paused_or_pending ops"]
  by (simp add: check_if_frozen_def check_if_frozen_loop_count)

lemma check_if_frozen_cases:
  "check_if_frozen ops cg = cg \<or>
   check_if_frozen ops cg = cg\<lparr>state := STATE_FROZEN, trace := trace cg @ [Set_state STATE_FROZEN]\<rparr>"
  by (simp add: check_if_frozen_def split: prod.splits)

lemma check_if_frozen_tasks [simp]: "tasks (check_if_frozen ops cg) = tasks cg"
  using check_if_frozen_cases [of ops cg] by auto

lemma check_if_frozen_removed [simp]: "removed (check_if_frozen ops cg) = removed cg"
  using check_if_frozen_cases [of ops cg] by auto

lemma check_if_frozen_calls [simp]:
  "adapter_calls (trace (check_if_frozen ops cg)) = adapter_calls (trace cg)"
  using check_if_frozen_cases [of ops cg] by (auto simp add: adapter_calls_def)

lemma check_if_frozen_thaw_calls [simp]:
  "thaw_calls (trace (check_if_frozen ops cg)) = thaw_calls (trace cg)"
  using check_if_frozen_cases [of ops cg] by (auto simp add: thaw_calls_append)

lemma check_if_frozen_freeze_calls [simp]:
  "freeze_calls (trace (check_if_frozen ops cg)) = freeze_calls (trace cg)"
  using check_if_frozen_cases [of ops cg] by (auto simp add: freeze_calls_append)

lemma check_if_frozen_state:
  "state (check_if_frozen ops cg) = state cg \<or> state (check_if_frozen ops cg) = STATE_FROZEN"
  using check_if_frozen_cases [of ops cg] by auto

lemma freezer_read_live:
  "\<not> removed cg \<Longrightarrow>
   freezer_read ops cg m =
     (0, if state cg = STATE_FREEZING then check_if_frozen ops cg else cg,
      m @ (case state (if state cg = STATE_FREEZING then check_if_frozen ops cg else cg) of
             STATE_RUNNING \<Rightarrow> ''RUNNING'' | STATE_FREEZING \<Rightarrow> ''FREEZING''
           | STATE_FROZEN \<Rightarrow> ''FROZEN'') @ [CHR 0x0A])"
  by (simp add: freezer_read_def Let_def state_str_cases)

lemma freezer_read_removed:
  "removed cg \<Longrightarrow> freezer_read ops cg m = (- ENODEV, cg, m)"
  by (simp add: freezer_read_def)

lemma try_to_freeze_cgroup_eq:
  assumes "length (tasks cg) < 2 ^ 32"
  shows "try_to_freeze_cgroup ops cg =
    (if list_ex (cant_freeze_now ops) (tasks cg) then - EBUSY else 0,
     cg\<lparr>state := STATE_FREEZING, tasks := map (\<lambda>t. snd (freeze_task ops t)) (tasks cg),
        trace := trace cg @ Set_state STATE_FREEZING # map Freeze_task (tasks cg)\<rparr>)"
  using blocked_counter_zero_iff [OF assms, of "cant_freeze_now ops"]
  by (simp add: try_to_freeze_cgroup_def try_to_freeze_loop_eq)

lemma try_to_freeze_cgroup_state [simp]:
  "state (snd (try_to_freeze_cgroup ops cg)) = STATE_FREEZING"
  by (simp add: try_to_freeze_cgroup_def split: prod.splits)

lemma unfreeze_cgroup_eq:
  "unfreeze_cgroup ops cg =
     (0, cg\<lparr>state := STATE_RUNNING, tasks := fst (unfreeze_loop ops (tasks cg)),
            trace := trace cg @ snd (unfreeze_loop ops (tasks cg)) @ [Set_state STATE_RUNNING]\<rparr>)"
  by (simp add: unfreeze_cgroup_def split: prod.splits)

lemma unfreeze_cgroup_state [simp]:
  "state (snd (unfreeze_cgroup ops cg)) = STATE_RUNNING"
  by (simp add: unfreeze_cgroup_eq)

lemma change_state_thaw:
  assumes "state cg = STATE_FREEZING \<or> state cg = STATE_FROZEN"
  shows "freezer_change_state ops cg STATE_RUNNING = unfreeze_cgroup ops (check_if_frozen ops cg)"
  using assms check_if_frozen_state [of ops cg]
  by (auto simp add: freezer_change_state_def Let_def split: freezer_state.splits)

lemma change_state_running_all_paused:
  assumes "state cg = STATE_RUNNING" and "length (tasks cg) < 2 ^ 32"
    and "list_all (paused_or_pending ops) (tasks cg)"
  shows "freezer_change_state ops cg STATE_RUNNING =
    unfreeze_cgroup ops (cg\<lparr>state := STATE_FROZEN, trace := trace cg @ [Set_state STATE_FROZEN]\<rparr>)"
  using assms by (simp add: freezer_change_state_def Let_def check_if_frozen_eq)

lemma unfreeze_cgroup_after_loop:
  "unfreeze_cgroup ops cg =
     (0, (unfreeze_cgroup_tasks ops cg)
           \<lparr>state := STATE_RUNNING,
            trace := trace (unfreeze_cgroup_tasks ops cg) @ [Set_state STATE_RUNNING]\<rparr>)"
  by (simp add: unfreeze_cgroup_def unfreeze_cgroup_tasks_def split: prod.splits)

lemma unfreeze_cgroup_tasks_eq:
  "unfreeze_cgroup_tasks ops cg =
     cg\<lparr>tasks := fst (unfreeze_loop ops (tasks cg)),
        trace := trace cg @ snd (unfreeze_loop ops (tasks cg))\<rparr>"
  by (simp add: unfreeze_cgroup_tasks_def split: prod.splits)

lemma freezer_write_eq:
  "freezer_write ops cg buffer =
     (if c_string buffer = ''RUNNING''
      then (if removed cg then (- ENODEV, cg) else freezer_change_state ops cg STATE_RUNNING)
      else if c_string buffer = ''FROZEN''
      then (if removed cg then (- ENODEV, cg) else freezer_change_state ops cg STATE_FROZEN)
      else (- EIO, cg))"
  by (simp add: freezer_write_def strcmp_zero_iff freezer_state_strs_def)

lemma freezer_write_removed:
  "removed cg \<Longrightarrow> c_string buffer = ''RUNNING'' \<or> c_string buffer = ''FROZEN'' \<Longrightarrow>
   freezer_write ops cg buffer = (- ENODEV, cg)"
  by (auto simp add: freezer_write_eq)

lemma spec_ops_simps [simp]:
  "frozen spec_ops = pf_frozen" "freezing spec_ops = tif_freeze"
  "task_is_stopped_or_traced spec_ops = is_stopped_or_traced"
  "freezer_should_skip spec_ops = pf_freezer_skip"
  "freeze_task spec_ops = spec_freeze_task" "thaw_process spec_ops = spec_thaw_process"
  "wake_up_process spec_ops = (\<lambda>t. t)"
  by (simp_all add: spec_ops_def)

subsection \<open>The invariant of \<open>STATE_FROZEN\<close>\<close>

text \<open>
  A new group satisfies the invariant, and every function of the file that returns a
  group keeps it: a group is never in \<open>STATE_FROZEN\<close> with a member that does not count
  as frozen.
\<close>

lemma frozen_invariant_create:
  "freezer_create allocated ts = Inr cg \<Longrightarrow> frozen_invariant ops cg"
  by (auto simp add: frozen_invariant_def freezer_create_def split: if_splits)

lemma frozen_invariant_check:
  assumes "length (tasks cg) < 2 ^ 32" and "frozen_invariant ops cg"
  shows "frozen_invariant ops (check_if_frozen ops cg)"
  using assms by (auto simp add: check_if_frozen_eq frozen_invariant_def)

lemma frozen_invariant_change_state:
  assumes "length (tasks cg) < 2 ^ 32" and "frozen_invariant ops cg"
  shows "frozen_invariant ops (snd (freezer_change_state ops cg goal_state))"
proof (cases "goal_state = state (check_if_frozen ops cg)")
  case True
  then show ?thesis
    using frozen_invariant_check [OF assms] by (simp add: freezer_change_state_def Let_def)
next
  case False
  then have "state (snd (freezer_change_state ops cg goal_state)) \<noteq> STATE_FROZEN"
    by (simp add: freezer_change_state_def Let_def split: freezer_state.splits)
  then show ?thesis by (simp add: frozen_invariant_def)
qed

lemma frozen_invariant_write:
  assumes "length (tasks cg) < 2 ^ 32" and "frozen_invariant ops cg"
  shows "frozen_invariant ops (snd (freezer_write ops cg buffer))"
  using assms frozen_invariant_change_state [OF assms]
  by (simp add: freezer_write_eq)

lemma frozen_invariant_fork:
  assumes "frozen_invariant ops cg" and "freezer_fork ops cg task = Inr (cg', task')"
  shows "frozen_invariant ops cg'"
  using assms by (auto simp add: freezer_fork_def frozen_invariant_def split: if_splits)

section \<open>The claims\<close>

subsection \<open>The convergence check: \<open>check_if_frozen\<close>\<close>

text \<open>
  Claim C1. On a group of fewer than \<open>2^32\<close> members (the counters are \<open>unsigned int\<close>),
  \<open>check_if_frozen\<close> assigns \<open>STATE_FROZEN\<close> exactly when every member of the scan is
  frozen now, or stopped or traced with a freeze request pending; otherwise it leaves
  the group as it was. Consequently a read of a live group that satisfies the invariant
  of \<open>STATE_FROZEN\<close> prints \<open>FROZEN\<close> only when every member counts as frozen, and leaves
  the invariant in place.
\<close>

theorem check_if_frozen_converges:
  assumes "length (tasks cg) < 2 ^ 32"
  shows "check_if_frozen ops cg =
      (if list_all (paused_or_pending ops) (tasks cg)
       then cg\<lparr>state := STATE_FROZEN, trace := trace cg @ [Set_state STATE_FROZEN]\<rparr>
       else cg) \<and>
    (frozen_invariant ops cg \<and> \<not> removed cg \<longrightarrow>
      (case freezer_read ops cg m of
         (retval, cg', m') \<Rightarrow>
           (m' = m @ ''FROZEN'' @ [CHR 0x0A] \<longleftrightarrow> state cg' = STATE_FROZEN) \<and>
           (m' = m @ ''FROZEN'' @ [CHR 0x0A] \<longrightarrow> list_all (paused_or_pending ops) (tasks cg')) \<and>
           frozen_invariant ops cg'))"
proof (intro conjI impI)
  show "check_if_frozen ops cg =
      (if list_all (paused_or_pending ops) (tasks cg)
       then cg\<lparr>state := STATE_FROZEN, trace := trace cg @ [Set_state STATE_FROZEN]\<rparr>
       else cg)"
    by (rule check_if_frozen_eq [OF assms])
next
  assume h: "frozen_invariant ops cg \<and> \<not> removed cg"
  define cg1 where "cg1 = (if state cg = STATE_FREEZING then check_if_frozen ops cg else cg)"
  have inv: "frozen_invariant ops cg1"
    using h assms by (simp add: cg1_def frozen_invariant_check)
  have rd: "freezer_read ops cg m =
      (0, cg1, m @ (case state cg1 of STATE_RUNNING \<Rightarrow> ''RUNNING''
         | STATE_FREEZING \<Rightarrow> ''FREEZING'' | STATE_FROZEN \<Rightarrow> ''FROZEN'') @ [CHR 0x0A])"
    using h by (simp add: freezer_read_live cg1_def)
  show "case freezer_read ops cg m of
         (retval, cg', m') \<Rightarrow>
           (m' = m @ ''FROZEN'' @ [CHR 0x0A] \<longleftrightarrow> state cg' = STATE_FROZEN) \<and>
           (m' = m @ ''FROZEN'' @ [CHR 0x0A] \<longrightarrow> list_all (paused_or_pending ops) (tasks cg')) \<and>
           frozen_invariant ops cg'"
    using inv unfolding rd by (cases "state cg1") (simp_all add: frozen_invariant_def)
qed

theorem check_if_frozen_converges_witness:
  "length (tasks (group_of STATE_FREEZING [task_frozen])) < 2 ^ 32 \<and>
   check_if_frozen spec_ops (group_of STATE_FREEZING [task_frozen]) =
     \<lparr>state = STATE_FROZEN, tasks = [task_frozen], removed = False,
      trace = [Set_state STATE_FROZEN]\<rparr> \<and>
   frozen_invariant spec_ops (group_of STATE_FREEZING [task_frozen]) \<and>
   \<not> removed (group_of STATE_FREEZING [task_frozen]) \<and>
   freezer_read spec_ops (group_of STATE_FREEZING [task_frozen]) [] =
     (0, \<lparr>state = STATE_FROZEN, tasks = [task_frozen], removed = False,
          trace = [Set_state STATE_FROZEN]\<rparr>, ''FROZEN'' @ [CHR 0x0A]) \<and>
   list_all (paused_or_pending spec_ops) [task_frozen] \<and>
   length (tasks (group_of STATE_FREEZING [task_frozen, task_running])) < 2 ^ 32 \<and>
   check_if_frozen spec_ops (group_of STATE_FREEZING [task_frozen, task_running]) =
     group_of STATE_FREEZING [task_frozen, task_running] \<and>
   frozen_invariant spec_ops (group_of STATE_FREEZING [task_frozen, task_running]) \<and>
   freezer_read spec_ops (group_of STATE_FREEZING [task_frozen, task_running]) [] =
     (0, group_of STATE_FREEZING [task_frozen, task_running], ''FREEZING'' @ [CHR 0x0A]) \<and>
   length (tasks (group_of STATE_FROZEN [task_frozen])) < 2 ^ 32 \<and>
   frozen_invariant spec_ops (group_of STATE_FROZEN [task_frozen]) \<and>
   freezer_read spec_ops (group_of STATE_FROZEN [task_frozen]) [] =
     (0, group_of STATE_FROZEN [task_frozen], ''FROZEN'' @ [CHR 0x0A])"
  using check_if_frozen_converges [of "group_of STATE_FREEZING [task_frozen]" spec_ops "[]"]
    check_if_frozen_converges [of "group_of STATE_FREEZING [task_frozen, task_running]" spec_ops "[]"]
    check_if_frozen_converges [of "group_of STATE_FROZEN [task_frozen]" spec_ops "[]"]
  by (simp add: group_of_def frozen_invariant_def paused_or_pending_def task_frozen_def
      task_running_def freezer_read_def check_if_frozen_def freezer_state_strs_def)

subsection \<open>The transition graph: \<open>freezer_change_state\<close>\<close>

text \<open>
  Claim C2. The claim is that the state moves only along RUNNING, FREEZING, FROZEN and
  back to RUNNING, with no direct step from RUNNING to FROZEN, and that a freeze request
  on a group without members still goes through \<open>try_to_freeze_cgroup\<close>. The code does
  otherwise: \<open>freezer_change_state\<close> runs \<open>check_if_frozen\<close> whatever the state, and on a
  new group without members the counters are equal, so the write of \<open>FROZEN\<close> assigns
  \<open>STATE_FROZEN\<close> to the running group and returns at once. In the trace the store of
  \<open>STATE_RUNNING\<close> by \<open>freezer_create\<close> is followed at once by the store of
  \<open>STATE_FROZEN\<close>: the state is never \<open>STATE_FREEZING\<close> and \<open>try_to_freeze_cgroup\<close> is not
  called. A read of the same group runs no check and prints \<open>RUNNING\<close>.
\<close>

theorem empty_group_frozen_without_freezing:
  "freezer_create True [] =
     Inr \<lparr>state = STATE_RUNNING, tasks = [], removed = False,
          trace = [Set_state STATE_RUNNING]\<rparr> \<and>
   freezer_write ops
       \<lparr>state = STATE_RUNNING, tasks = [], removed = False, trace = [Set_state STATE_RUNNING]\<rparr>
       ''FROZEN'' =
     (0, \<lparr>state = STATE_FROZEN, tasks = [], removed = False,
          trace = [Set_state STATE_RUNNING, Set_state STATE_FROZEN]\<rparr>) \<and>
   freezer_read ops
       \<lparr>state = STATE_RUNNING, tasks = [], removed = False, trace = [Set_state STATE_RUNNING]\<rparr>
       m =
     (0, \<lparr>state = STATE_RUNNING, tasks = [], removed = False,
          trace = [Set_state STATE_RUNNING]\<rparr>,
      m @ ''RUNNING'' @ [CHR 0x0A])"
  by (simp add: freezer_write_eq freezer_create_def freezer_change_state_def
      check_if_frozen_def freezer_read_def freezer_state_strs_def)

subsection \<open>Thaw\<close>

text \<open>
  Claim C3. On a group in \<open>STATE_FREEZING\<close> or \<open>STATE_FROZEN\<close>, \<open>freezer_change_state\<close>
  with the goal \<open>STATE_RUNNING\<close> returns 0 whatever the per-task calls answer, calls
  \<open>__thaw_process\<close> once for every member, in order, asks no task to freeze, and leaves
  the state \<open>STATE_RUNNING\<close>; every member is as the thaw (and the wake-up, when the thaw
  asks for it) left it.
\<close>

theorem thaw_always_succeeds:
  assumes "state cg = STATE_FREEZING \<or> state cg = STATE_FROZEN"
  shows "case freezer_change_state ops cg STATE_RUNNING of
      (retval, cg') \<Rightarrow>
        retval = 0 \<and> state cg' = STATE_RUNNING \<and>
        thaw_calls (trace cg') = thaw_calls (trace cg) @ tasks cg \<and>
        freeze_calls (trace cg') = freeze_calls (trace cg) \<and>
        tasks cg' =
          map (\<lambda>t. case thaw_process ops t of
                      (do_wake, t') \<Rightarrow> if do_wake \<noteq> 0 then wake_up_process ops t' else t')
              (tasks cg)"
  by (simp add: change_state_thaw [OF assms] unfreeze_cgroup_eq thaw_calls_append
      freeze_calls_append unfreeze_loop_thaw_calls unfreeze_loop_freeze_calls unfreeze_loop_tasks)

theorem thaw_always_succeeds_witness:
  "(state (group_of STATE_FREEZING [task_frozen, task_running]) = STATE_FREEZING \<or>
    state (group_of STATE_FREEZING [task_frozen, task_running]) = STATE_FROZEN) \<and>
   freezer_change_state spec_ops (group_of STATE_FREEZING [task_frozen, task_running]) STATE_RUNNING =
     (0,
      \<lparr>state = STATE_RUNNING,
       tasks = [task_frozen\<lparr>pf_frozen := False\<rparr>, task_running],
       removed = False,
       trace = [Thaw_process task_frozen, Wake_up_process (task_frozen\<lparr>pf_frozen := False\<rparr>),
                Thaw_process task_running, Set_state STATE_RUNNING]\<rparr>) \<and>
   thaw_calls [Thaw_process task_frozen, Wake_up_process (task_frozen\<lparr>pf_frozen := False\<rparr>),
               Thaw_process task_running, Set_state STATE_RUNNING] = [task_frozen, task_running]"
  using thaw_always_succeeds [of "group_of STATE_FREEZING [task_frozen, task_running]" spec_ops]
  by (simp add: group_of_def spec_thaw_process_def task_frozen_def task_running_def
      freezer_change_state_def check_if_frozen_def unfreeze_cgroup_def)

subsection \<open>The freeze attempt: \<open>try_to_freeze_cgroup\<close>\<close>

text \<open>
  Claim C4. On a group of fewer than \<open>2^32\<close> members (the counter is \<open>unsigned int\<close>),
  \<open>try_to_freeze_cgroup\<close> assigns \<open>STATE_FREEZING\<close> before the first call of the scan,
  asks every member to freeze, in order, and returns \<open>-EBUSY\<close> if and only if some
  member blocks the attempt: \<open>freeze_task\<close> returned true for it, and after the call it
  has no request pending (so it is not stopped or traced with the request pending
  either) and is not marked to be skipped. It returns 0 otherwise. In both cases the
  state is left \<open>STATE_FREEZING\<close>.
\<close>

theorem try_to_freeze_cgroup_busy:
  assumes "length (tasks cg) < 2 ^ 32"
  shows "case try_to_freeze_cgroup ops cg of
      (retval, cg') \<Rightarrow>
        trace cg' = trace cg @ Set_state STATE_FREEZING # map Freeze_task (tasks cg) \<and>
        (retval = - EBUSY \<longleftrightarrow> list_ex (cant_freeze_now ops) (tasks cg)) \<and>
        (retval = 0 \<longleftrightarrow> \<not> list_ex (cant_freeze_now ops) (tasks cg)) \<and>
        state cg' = STATE_FREEZING \<and>
        tasks cg' = map (\<lambda>t. snd (freeze_task ops t)) (tasks cg)"
  by (simp add: try_to_freeze_cgroup_eq [OF assms] EBUSY_def)

theorem try_to_freeze_cgroup_busy_witness:
  "length (tasks (group_of STATE_RUNNING [task_running, task_declining, task_frozen])) < 2 ^ 32 \<and>
   list_ex (cant_freeze_now spec_ops) [task_running, task_declining, task_frozen] \<and>
   try_to_freeze_cgroup spec_ops (group_of STATE_RUNNING [task_running, task_declining, task_frozen]) =
     (- 16,
      \<lparr>state = STATE_FREEZING,
       tasks = [task_running\<lparr>tif_freeze := True\<rparr>, task_declining, task_frozen],
       removed = False,
       trace = [Set_state STATE_FREEZING, Freeze_task task_running, Freeze_task task_declining,
                Freeze_task task_frozen]\<rparr>) \<and>
   length (tasks (group_of STATE_RUNNING [task_running, task_frozen])) < 2 ^ 32 \<and>
   \<not> list_ex (cant_freeze_now spec_ops) [task_running, task_frozen] \<and>
   try_to_freeze_cgroup spec_ops (group_of STATE_RUNNING [task_running, task_frozen]) =
     (0,
      \<lparr>state = STATE_FREEZING,
       tasks = [task_running\<lparr>tif_freeze := True\<rparr>, task_frozen],
       removed = False,
       trace = [Set_state STATE_FREEZING, Freeze_task task_running, Freeze_task task_frozen]\<rparr>)"
  using try_to_freeze_cgroup_busy
      [of "group_of STATE_RUNNING [task_running, task_declining, task_frozen]" spec_ops]
    try_to_freeze_cgroup_busy [of "group_of STATE_RUNNING [task_running, task_frozen]" spec_ops]
  by (simp add: group_of_def cant_freeze_now_def spec_freeze_task_def task_frozen_def
      task_running_def task_declining_def try_to_freeze_cgroup_def EBUSY_def)

subsection \<open>Requesting the current state\<close>

text \<open>
  When the goal equals the state that \<open>check_if_frozen\<close> leaves, \<open>freezer_change_state\<close>
  returns 0 and the group the check left, and makes no call to freeze, thaw or wake a
  task. On a group in \<open>STATE_RUNNING\<close> the check leaves the state only when some member
  does not count as frozen.
\<close>

lemma change_state_goal_reached:
  "(state (check_if_frozen ops cg) = goal_state \<longrightarrow>
      freezer_change_state ops cg goal_state = (0, check_if_frozen ops cg) \<and>
      tasks (check_if_frozen ops cg) = tasks cg \<and>
      adapter_calls (trace (check_if_frozen ops cg)) = adapter_calls (trace cg)) \<and>
   (state cg = STATE_RUNNING \<and> length (tasks cg) < 2 ^ 32 \<and>
    \<not> list_all (paused_or_pending ops) (tasks cg) \<longrightarrow>
      freezer_change_state ops cg STATE_RUNNING = (0, cg)) \<and>
   (state cg = STATE_FROZEN \<longrightarrow>
      (case freezer_change_state ops cg STATE_FROZEN of
         (retval, cg') \<Rightarrow>
           retval = 0 \<and> state cg' = STATE_FROZEN \<and> tasks cg' = tasks cg \<and>
           adapter_calls (trace cg') = adapter_calls (trace cg)))"
proof (intro conjI impI)
  assume "state (check_if_frozen ops cg) = goal_state"
  then show "freezer_change_state ops cg goal_state = (0, check_if_frozen ops cg)"
    by (simp add: freezer_change_state_def Let_def)
next
  show "tasks (check_if_frozen ops cg) = tasks cg" by simp
next
  show "adapter_calls (trace (check_if_frozen ops cg)) = adapter_calls (trace cg)" by simp
next
  assume "state cg = STATE_RUNNING \<and> length (tasks cg) < 2 ^ 32 \<and>
    \<not> list_all (paused_or_pending ops) (tasks cg)"
  then show "freezer_change_state ops cg STATE_RUNNING = (0, cg)"
    by (simp add: freezer_change_state_def Let_def check_if_frozen_eq)
next
  assume "state cg = STATE_FROZEN"
  then have "state (check_if_frozen ops cg) = STATE_FROZEN"
    using check_if_frozen_state [of ops cg] by auto
  then show "case freezer_change_state ops cg STATE_FROZEN of
         (retval, cg') \<Rightarrow>
           retval = 0 \<and> state cg' = STATE_FROZEN \<and> tasks cg' = tasks cg \<and>
           adapter_calls (trace cg') = adapter_calls (trace cg)"
    by (simp add: freezer_change_state_def Let_def)
qed

text \<open>
  Claim C5. The claim is that requesting the current state does nothing, for example
  that the goal \<open>STATE_RUNNING\<close> on a group in \<open>STATE_RUNNING\<close> makes no call to freeze or
  thaw a task. The code does otherwise on a group in \<open>STATE_RUNNING\<close> whose members (at
  least one, fewer than \<open>2^32\<close>) all count as frozen, such as a group that a frozen task
  was attached to: \<open>freezer_change_state\<close> runs \<open>check_if_frozen\<close> whatever the state, the
  check stores \<open>STATE_FROZEN\<close>, the goal no longer equals the state, and
  \<open>unfreeze_cgroup\<close> thaws every member before it stores \<open>STATE_RUNNING\<close> again.
\<close>

theorem running_goal_thaws_running_group:
  assumes "state cg = STATE_RUNNING" and "length (tasks cg) < 2 ^ 32"
    and "list_all (paused_or_pending ops) (tasks cg)" and "tasks cg \<noteq> []"
  shows "case freezer_change_state ops cg STATE_RUNNING of
      (retval, cg') \<Rightarrow>
        retval = 0 \<and> state cg' = STATE_RUNNING \<and>
        trace cg' =
          trace cg @ Set_state STATE_FROZEN # snd (unfreeze_loop ops (tasks cg))
            @ [Set_state STATE_RUNNING] \<and>
        thaw_calls (trace cg') = thaw_calls (trace cg) @ tasks cg \<and>
        thaw_calls (trace cg') \<noteq> thaw_calls (trace cg)"
  using assms(4)
  by (simp add: change_state_running_all_paused [OF assms(1-3)] unfreeze_cgroup_eq
      thaw_calls_append unfreeze_loop_thaw_calls)

theorem running_goal_thaws_running_group_witness:
  "state (group_of STATE_RUNNING [task_frozen]) = STATE_RUNNING \<and>
   length (tasks (group_of STATE_RUNNING [task_frozen])) < 2 ^ 32 \<and>
   list_all (paused_or_pending spec_ops) (tasks (group_of STATE_RUNNING [task_frozen])) \<and>
   tasks (group_of STATE_RUNNING [task_frozen]) \<noteq> [] \<and>
   freezer_change_state spec_ops (group_of STATE_RUNNING [task_frozen]) STATE_RUNNING =
     (0,
      \<lparr>state = STATE_RUNNING, tasks = [task_frozen\<lparr>pf_frozen := False\<rparr>], removed = False,
       trace = [Set_state STATE_FROZEN, Thaw_process task_frozen,
                Wake_up_process (task_frozen\<lparr>pf_frozen := False\<rparr>),
                Set_state STATE_RUNNING]\<rparr>) \<and>
   thaw_calls [Set_state STATE_FROZEN, Thaw_process task_frozen,
               Wake_up_process (task_frozen\<lparr>pf_frozen := False\<rparr>),
               Set_state STATE_RUNNING] = [task_frozen]"
  using running_goal_thaws_running_group [of "group_of STATE_RUNNING [task_frozen]" spec_ops]
  by (simp add: group_of_def paused_or_pending_def task_frozen_def spec_thaw_process_def
      freezer_change_state_def check_if_frozen_def unfreeze_cgroup_def)

subsection \<open>The state file: \<open>freezer_read\<close> and \<open>freezer_write\<close>\<close>

text \<open>
  Claim C6. A read of a live group returns 0 and appends to the file exactly one of
  \<open>RUNNING\<close>, \<open>FREEZING\<close>, \<open>FROZEN\<close>, the name of the state it leaves, and a newline. It
  runs \<open>check_if_frozen\<close> when the state is \<open>STATE_FREEZING\<close>, and only then: a group in
  \<open>STATE_RUNNING\<close> or \<open>STATE_FROZEN\<close> is returned as it was.
\<close>

theorem freezer_read_token:
  assumes "\<not> removed cg"
  shows "case freezer_read ops cg m of
      (retval, cg', m') \<Rightarrow>
        retval = 0 \<and>
        cg' = (if state cg = STATE_FREEZING then check_if_frozen ops cg else cg) \<and>
        m' = m @ (case state cg' of STATE_RUNNING \<Rightarrow> ''RUNNING''
                  | STATE_FREEZING \<Rightarrow> ''FREEZING'' | STATE_FROZEN \<Rightarrow> ''FROZEN'') @ [CHR 0x0A] \<and>
        (m' = m @ ''RUNNING'' @ [CHR 0x0A] \<or> m' = m @ ''FREEZING'' @ [CHR 0x0A] \<or>
         m' = m @ ''FROZEN'' @ [CHR 0x0A]) \<and>
        (state cg = STATE_RUNNING \<or> state cg = STATE_FROZEN \<longrightarrow> cg' = cg)"
  by (cases "state (if state cg = STATE_FREEZING then check_if_frozen ops cg else cg)")
    (auto simp add: freezer_read_live [OF assms])

theorem freezer_read_token_witness:
  "\<not> removed (group_of STATE_FREEZING [task_frozen]) \<and>
   freezer_read spec_ops (group_of STATE_FREEZING [task_frozen]) [] =
     (0, \<lparr>state = STATE_FROZEN, tasks = [task_frozen], removed = False,
          trace = [Set_state STATE_FROZEN]\<rparr>, ''FROZEN'' @ [CHR 0x0A]) \<and>
   \<not> removed (group_of STATE_FREEZING [task_running]) \<and>
   freezer_read spec_ops (group_of STATE_FREEZING [task_running]) [] =
     (0, group_of STATE_FREEZING [task_running], ''FREEZING'' @ [CHR 0x0A]) \<and>
   \<not> removed (group_of STATE_RUNNING [task_frozen]) \<and>
   freezer_read spec_ops (group_of STATE_RUNNING [task_frozen]) [] =
     (0, group_of STATE_RUNNING [task_frozen], ''RUNNING'' @ [CHR 0x0A])"
  using freezer_read_token [of "group_of STATE_FREEZING [task_frozen]" spec_ops "[]"]
    freezer_read_token [of "group_of STATE_FREEZING [task_running]" spec_ops "[]"]
    freezer_read_token [of "group_of STATE_RUNNING [task_frozen]" spec_ops "[]"]
  by (simp add: group_of_def task_frozen_def task_running_def check_if_frozen_def
      freezer_read_def freezer_state_strs_def)

text \<open>
  Claim C7. A write is parsed only when the string in the buffer is exactly \<open>RUNNING\<close> or
  \<open>FROZEN\<close>: it then requests that state (on a live group). Every other string, \<open>FREEZING\<close>
  among them, is answered \<open>-EIO\<close>, and the group is returned as it was.
\<close>

theorem freezer_write_parse:
  "(c_string buffer \<noteq> ''RUNNING'' \<and> c_string buffer \<noteq> ''FROZEN'' \<longrightarrow>
      freezer_write ops cg buffer = (- EIO, cg)) \<and>
   (c_string buffer = ''RUNNING'' \<longrightarrow>
      freezer_write ops cg buffer =
        (if removed cg then (- ENODEV, cg) else freezer_change_state ops cg STATE_RUNNING)) \<and>
   (c_string buffer = ''FROZEN'' \<longrightarrow>
      freezer_write ops cg buffer =
        (if removed cg then (- ENODEV, cg) else freezer_change_state ops cg STATE_FROZEN)) \<and>
   freezer_write ops cg ''FREEZING'' = (- EIO, cg)"
  by (simp add: freezer_write_eq) (simp add: c_string_def)

theorem freezer_write_parse_witness:
  "c_string ''FREEZING'' \<noteq> ''RUNNING'' \<and> c_string ''FREEZING'' \<noteq> ''FROZEN'' \<and>
   freezer_write spec_ops (group_of STATE_RUNNING [task_running]) ''FREEZING'' =
     (- 5, group_of STATE_RUNNING [task_running]) \<and>
   c_string ''frozen'' \<noteq> ''RUNNING'' \<and> c_string ''frozen'' \<noteq> ''FROZEN'' \<and>
   freezer_write spec_ops (group_of STATE_RUNNING [task_running]) ''frozen'' =
     (- 5, group_of STATE_RUNNING [task_running]) \<and>
   c_string ''FROZEN'' = ''FROZEN'' \<and>
   freezer_write spec_ops (group_of STATE_RUNNING [task_running]) ''FROZEN'' =
     (0, \<lparr>state = STATE_FREEZING, tasks = [task_running\<lparr>tif_freeze := True\<rparr>],
          removed = False, trace = [Set_state STATE_FREEZING, Freeze_task task_running]\<rparr>) \<and>
   c_string ''RUNNING'' = ''RUNNING'' \<and>
   freezer_write spec_ops (group_of STATE_FREEZING [task_running\<lparr>tif_freeze := True\<rparr>]) ''RUNNING'' =
     (0, \<lparr>state = STATE_RUNNING, tasks = [task_running],
          removed = False,
          trace = [Thaw_process (task_running\<lparr>tif_freeze := True\<rparr>), Set_state STATE_RUNNING]\<rparr>)"
  using freezer_write_parse [of "''FREEZING''" spec_ops "group_of STATE_RUNNING [task_running]"]
    freezer_write_parse [of "''frozen''" spec_ops "group_of STATE_RUNNING [task_running]"]
    freezer_write_parse [of "''FROZEN''" spec_ops "group_of STATE_RUNNING [task_running]"]
    freezer_write_parse [of "''RUNNING''" spec_ops
      "group_of STATE_FREEZING [task_running\<lparr>tif_freeze := True\<rparr>]"]
  by (simp add: group_of_def c_string_def task_running_def EIO_def freezer_change_state_def
      check_if_frozen_def try_to_freeze_cgroup_def unfreeze_cgroup_def spec_freeze_task_def
      spec_thaw_process_def)

subsection \<open>Admission: \<open>freezer_can_attach\<close> and \<open>freezer_fork\<close>\<close>

text \<open>
  Claim C8. \<open>freezer_can_attach\<close> returns \<open>-EBUSY\<close> if and only if the state of the target
  group is \<open>STATE_FROZEN\<close>; when the state is \<open>STATE_RUNNING\<close> or \<open>STATE_FREEZING\<close> it
  returns 0, and the task is admitted.
\<close>

theorem can_attach_busy_iff_frozen:
  "freezer_can_attach cg task = (if state cg = STATE_FROZEN then - EBUSY else 0) \<and>
   (freezer_can_attach cg task = - EBUSY \<longleftrightarrow> state cg = STATE_FROZEN) \<and>
   (state cg = STATE_RUNNING \<or> state cg = STATE_FREEZING \<longrightarrow> freezer_can_attach cg task = 0)"
  by (auto simp add: freezer_can_attach_def EBUSY_def)

theorem can_attach_busy_iff_frozen_witness:
  "freezer_can_attach (group_of STATE_FROZEN [task_frozen]) task_running = - 16 \<and>
   freezer_can_attach (group_of STATE_FREEZING [task_running]) task_running = 0 \<and>
   freezer_can_attach (group_of STATE_RUNNING [task_running]) task_running = 0"
  using can_attach_busy_iff_frozen [of "group_of STATE_FROZEN [task_frozen]" task_running]
    can_attach_busy_iff_frozen [of "group_of STATE_FREEZING [task_running]" task_running]
    can_attach_busy_iff_frozen [of "group_of STATE_RUNNING [task_running]" task_running]
  by (simp add: group_of_def EBUSY_def)

text \<open>
  Claim C9. \<open>freezer_fork\<close> asks the new task to freeze if and only if the state of its
  group is \<open>STATE_FREEZING\<close> when the hook runs: then it makes the one call
  \<open>freeze_task\<close> on that task. In \<open>STATE_RUNNING\<close> the group and the task are returned as
  they were, and in no other state is a call made.
\<close>

theorem fork_freezes_iff_freezing:
  "(state cg = STATE_FREEZING \<longrightarrow>
      freezer_fork ops cg task =
        Inr (cg\<lparr>trace := trace cg @ [Freeze_task task]\<rparr>, snd (freeze_task ops task))) \<and>
   (state cg = STATE_RUNNING \<longrightarrow> freezer_fork ops cg task = Inr (cg, task)) \<and>
   ((case freezer_fork ops cg task of
       Inl b \<Rightarrow> False
     | Inr (cg', task') \<Rightarrow> freeze_calls (trace cg') = freeze_calls (trace cg) @ [task])
    \<longleftrightarrow> state cg = STATE_FREEZING) \<and>
   ((case freezer_fork ops cg task of
       Inl b \<Rightarrow> True
     | Inr (cg', task') \<Rightarrow> trace cg' = trace cg)
    \<longleftrightarrow> state cg \<noteq> STATE_FREEZING)"
  by (cases "state cg") (auto simp add: freezer_fork_def freeze_calls_append)

theorem fork_freezes_iff_freezing_witness:
  "state (group_of STATE_FREEZING [task_frozen]) = STATE_FREEZING \<and>
   freezer_fork spec_ops (group_of STATE_FREEZING [task_frozen]) task_running =
     Inr (\<lparr>state = STATE_FREEZING, tasks = [task_frozen], removed = False,
           trace = [Freeze_task task_running]\<rparr>, task_running\<lparr>tif_freeze := True\<rparr>) \<and>
   state (group_of STATE_RUNNING [task_running]) = STATE_RUNNING \<and>
   freezer_fork spec_ops (group_of STATE_RUNNING [task_running]) task_running =
     Inr (group_of STATE_RUNNING [task_running], task_running)"
  using fork_freezes_iff_freezing [of "group_of STATE_FREEZING [task_frozen]" spec_ops task_running]
    fork_freezes_iff_freezing [of "group_of STATE_RUNNING [task_running]" spec_ops task_running]
  by (simp add: group_of_def spec_freeze_task_def task_running_def)

text \<open>
  On one and the same group, the assertion of \<open>freezer_fork\<close> fails exactly when the state
  is \<open>STATE_FROZEN\<close>, which is exactly when \<open>freezer_can_attach\<close> refuses admission.
\<close>

lemma freezer_fork_bug_iff:
  "(freezer_fork ops cg task = Inl BUG \<longleftrightarrow> state cg = STATE_FROZEN) \<and>
   (freezer_fork ops cg task = Inl BUG \<longleftrightarrow> freezer_can_attach cg task = - EBUSY) \<and>
   (freezer_can_attach cg task = 0 \<longrightarrow>
      (\<exists>cg' task'. freezer_fork ops cg task = Inr (cg', task')))"
  by (auto simp add: freezer_fork_def freezer_can_attach_def EBUSY_def)

text \<open>
  Claim C10. The claim is that the assertion of \<open>freezer_fork\<close>, which stops the kernel
  when the group of the new task is in \<open>STATE_FROZEN\<close>, cannot be reached as long as
  \<open>freezer_can_attach\<close> refuses admission to a frozen group. The code does otherwise. On a
  group in \<open>STATE_FROZEN\<close>, to which \<open>freezer_can_attach\<close> admits nobody, a write of
  \<open>RUNNING\<close> runs the loop of \<open>unfreeze_cgroup\<close>, which thaws and wakes the members, and
  only then stores \<open>STATE_RUNNING\<close>. After the loop and before the store the state is
  still \<open>STATE_FROZEN\<close>; the assertion reads the state outside \<open>freezer->lock\<close>, so when a
  woken member forks at that point \<open>freezer_fork\<close> stops the kernel.
\<close>

theorem fork_bug_during_thaw:
  assumes "state cg = STATE_FROZEN"
  shows "freezer_can_attach cg task = - EBUSY \<and>
    freezer_change_state ops cg STATE_RUNNING =
      (0, (unfreeze_cgroup_tasks ops (check_if_frozen ops cg))
            \<lparr>state := STATE_RUNNING,
             trace := trace (unfreeze_cgroup_tasks ops (check_if_frozen ops cg))
                        @ [Set_state STATE_RUNNING]\<rparr>) \<and>
    state (unfreeze_cgroup_tasks ops (check_if_frozen ops cg)) = STATE_FROZEN \<and>
    tasks (unfreeze_cgroup_tasks ops (check_if_frozen ops cg)) =
      map (\<lambda>t. case thaw_process ops t of
                  (do_wake, t') \<Rightarrow> if do_wake \<noteq> 0 then wake_up_process ops t' else t')
          (tasks cg) \<and>
    freezer_fork ops (unfreeze_cgroup_tasks ops (check_if_frozen ops cg)) task = Inl BUG"
proof -
  have st: "state (check_if_frozen ops cg) = STATE_FROZEN"
    using assms check_if_frozen_state [of ops cg] by auto
  have "freezer_change_state ops cg STATE_RUNNING = unfreeze_cgroup ops (check_if_frozen ops cg)"
    using assms by (simp add: change_state_thaw)
  then show ?thesis
    using assms st
    by (simp add: unfreeze_cgroup_after_loop freezer_can_attach_def freezer_fork_def
        unfreeze_cgroup_tasks_eq unfreeze_loop_tasks)
qed

theorem fork_bug_during_thaw_witness:
  "state (group_of STATE_FROZEN [task_frozen]) = STATE_FROZEN \<and>
   freezer_can_attach (group_of STATE_FROZEN [task_frozen]) task_running = - 16 \<and>
   unfreeze_cgroup_tasks spec_ops (check_if_frozen spec_ops (group_of STATE_FROZEN [task_frozen])) =
     \<lparr>state = STATE_FROZEN, tasks = [task_frozen\<lparr>pf_frozen := False\<rparr>], removed = False,
      trace = [Set_state STATE_FROZEN, Thaw_process task_frozen,
               Wake_up_process (task_frozen\<lparr>pf_frozen := False\<rparr>)]\<rparr> \<and>
   freezer_fork spec_ops
     \<lparr>state = STATE_FROZEN, tasks = [task_frozen\<lparr>pf_frozen := False\<rparr>], removed = False,
      trace = [Set_state STATE_FROZEN, Thaw_process task_frozen,
               Wake_up_process (task_frozen\<lparr>pf_frozen := False\<rparr>)]\<rparr>
     (task_frozen\<lparr>pf_frozen := False\<rparr>) = Inl BUG \<and>
   freezer_change_state spec_ops (group_of STATE_FROZEN [task_frozen]) STATE_RUNNING =
     (0,
      \<lparr>state = STATE_RUNNING, tasks = [task_frozen\<lparr>pf_frozen := False\<rparr>], removed = False,
       trace = [Set_state STATE_FROZEN, Thaw_process task_frozen,
                Wake_up_process (task_frozen\<lparr>pf_frozen := False\<rparr>),
                Set_state STATE_RUNNING]\<rparr>)"
  using fork_bug_during_thaw [of "group_of STATE_FROZEN [task_frozen]"
      "task_frozen\<lparr>pf_frozen := False\<rparr>" spec_ops]
    fork_bug_during_thaw [of "group_of STATE_FROZEN [task_frozen]" task_running spec_ops]
  by (simp add: group_of_def task_frozen_def spec_thaw_process_def EBUSY_def
      check_if_frozen_def unfreeze_cgroup_tasks_def freezer_fork_def)

end
